theory Spec2Isabelle
  imports Main "HOL-Library.Sublist"
begin

section \<open>Classic API phrases and their translation (search/services/index/classic.py)\<close>

subsection \<open>Data model\<close>

text \<open>
  Modelled from the spec: the enumerations \<open>Operator\<close> and \<open>Field\<close> of \<open>search.domain\<close>
  (section 3 of the specification), whose declarations are not among the sources. The
  members of \<open>Field\<close> are the eight keys of \<open>FIELD_TERM_MAPPING\<close>; the source's member
  \<open>Field.All\<close> is written \<open>AllFields\<close>, the name the specification gives it.
\<close>

datatype Operator = AND | OR | ANDNOT

datatype Field = Author | Comment | Identifier | JournalReference | ReportNumber
  | SubjectCategory | Title | AllFields

text \<open>
  A phrase is a Python tuple, and the translator inspects its elements with
  \<open>isinstance\<close>, so a phrase is modelled as a list of dynamically typed values: an
  operator, a field, a string, or a nested tuple.
\<close>

datatype pyval = OperatorV Operator | FieldV Field | StrV string | TupleV "pyval list"

text \<open>
  Exceptions are values. \<open>ValueError\<close> and \<open>IOError\<close> carry what their message is built
  from; \<open>Cannot_unpack\<close> is the \<open>ValueError\<close> of unpacking a tuple that is not a pair.
\<close>

datatype message = Invalid_phrase_component pyval | Cannot_unpack | Invalid_document_id
  | SSL_failed string | Could_not_retrieve string int | Could_not_decode string string

datatype pyerror = IndexError | KeyError pyval | ValueError message | IOError message
  | TypeError

text \<open>
  The query objects come from the library \<open>elasticsearch_dsl\<close>, which the translator uses
  through four operations only: \<open>Q()\<close>, \<open>&\<close>, \<open>|\<close> and \<open>~\<close>. They are parameters of the
  model, for an arbitrary type \<open>'q\<close> of queries.
\<close>

record 'q dsl =
  Q_empty :: 'q
  q_and :: "'q \<Rightarrow> 'q \<Rightarrow> 'q"
  q_or :: "'q \<Rightarrow> 'q \<Rightarrow> 'q"
  q_not :: "'q \<Rightarrow> 'q"

text \<open>
  \<open>SEARCH_FIELDS\<close> (module \<open>prepare\<close>, not among the sources) is a dictionary from field
  names to query builders; it is a parameter as well. A builder is applied to the second
  element of a term, whatever that value is.
\<close>

type_synonym 'q builder = "pyval \<Rightarrow> 'q"

type_synonym 'q search_fields = "string \<rightharpoonup> 'q builder"

subsection \<open>\<open>_term_to_query\<close>\<close>

text \<open>
  The dictionary literal \<open>FIELD_TERM_MAPPING\<close> is evaluated at every call, entry by entry:
  the first key missing from \<open>SEARCH_FIELDS\<close> raises \<open>KeyError\<close>, whatever the term is.
\<close>

definition FIELD_KEYS :: "(Field \<times> string) list" where
  "FIELD_KEYS =
     [(Author, ''author''), (Comment, ''comments''), (Identifier, ''paper_id''),
      (JournalReference, ''journal_ref''), (ReportNumber, ''report_num''),
      (SubjectCategory, ''cross_list_category''), (Title, ''title''), (AllFields, ''all'')]"

fun build_mapping ::
  "'q search_fields \<Rightarrow> (Field \<times> string) list \<Rightarrow> pyerror + (Field \<times> 'q builder) list" where
  "build_mapping S [] = Inr []"
| "build_mapping S ((f, k) # rest) =
     (case S k of
        None \<Rightarrow> Inl (KeyError (StrV k))
      | Some b \<Rightarrow>
          (case build_mapping S rest of
             Inl e \<Rightarrow> Inl e
           | Inr m \<Rightarrow> Inr ((f, b) # m)))"

fun term_to_query :: "'q search_fields \<Rightarrow> pyval list \<Rightarrow> pyerror + 'q" where
  "term_to_query S [field, val] =
     (case build_mapping S FIELD_KEYS of
        Inl e \<Rightarrow> Inl e
      | Inr m \<Rightarrow>
          (case field of
             FieldV f \<Rightarrow>
               (case map_of m f of
                  None \<Rightarrow> Inl (KeyError field)
                | Some b \<Rightarrow> Inr (b val))
           | _ \<Rightarrow> Inl (KeyError field)))"
| "term_to_query S term = Inl (ValueError Cannot_unpack)"

declare term_to_query.simps [simp del]

subsection \<open>\<open>_phrase_to_query\<close>\<close>

fun is_Operator :: "pyval \<Rightarrow> bool" where
  "is_Operator (OperatorV _) = True"
| "is_Operator _ = False"

fun is_Field :: "pyval \<Rightarrow> bool" where
  "is_Field (FieldV _) = True"
| "is_Field _ = False"

text \<open>The three branches that fold an operand into the accumulator \<open>q\<close>.\<close>

fun combine :: "'q dsl \<Rightarrow> Operator \<Rightarrow> 'q \<Rightarrow> 'q \<Rightarrow> 'q" where
  "combine A AND q phrase_q = q_and A q phrase_q"
| "combine A OR q phrase_q = q_or A q phrase_q"
| "combine A ANDNOT q phrase_q = q_and A q (q_not A phrase_q)"

text \<open>
  \<open>phrase_to_query\<close> is the function; \<open>phrase_loop\<close> is its \<open>for\<close> loop, with the
  accumulator \<open>q\<close> and \<open>current_operator\<close> as arguments. A token that is neither an
  operator nor a tuple matches no branch of the loop body and is passed over.
\<close>

function phrase_to_query :: "'q dsl \<Rightarrow> 'q search_fields \<Rightarrow> pyval list \<Rightarrow> pyerror + 'q"
  and phrase_loop ::
    "'q dsl \<Rightarrow> 'q search_fields \<Rightarrow> pyval list \<Rightarrow> 'q \<Rightarrow> Operator \<Rightarrow> pyerror + 'q"
where
  "phrase_to_query A S phrase =
     (case phrase of
        [] \<Rightarrow> Inl IndexError
      | p0 # _ \<Rightarrow>
          if is_Field p0 \<and> length phrase = 2 then term_to_query S phrase
          else phrase_loop A S phrase (Q_empty A) AND)"
| "phrase_loop A S [] q current_operator = Inr q"
| "phrase_loop A S (OperatorV tok # rest) q current_operator = phrase_loop A S rest q tok"
| "phrase_loop A S (TupleV token # rest) q current_operator =
     (case (case token of
              [] \<Rightarrow> Inl IndexError
            | t0 # _ \<Rightarrow>
                if is_Operator t0 \<or> length token = 3 then phrase_to_query A S token
                else if length token = 2 then term_to_query S token
                else Inl (ValueError (Invalid_phrase_component (TupleV token)))) of
        Inl e \<Rightarrow> Inl e
      | Inr phrase_q \<Rightarrow>
          phrase_loop A S rest (combine A current_operator q phrase_q) current_operator)"
| "phrase_loop A S (FieldV f # rest) q current_operator =
     phrase_loop A S rest q current_operator"
| "phrase_loop A S (StrV s # rest) q current_operator =
     phrase_loop A S rest q current_operator"
  by pat_completeness auto
termination
  by (relation "measure (\<lambda>x. case x of
        Inl (A, S, phrase) \<Rightarrow> 2 * size_list size phrase + 1
      | Inr (A, S, phrase, q, c) \<Rightarrow> 2 * size_list size phrase)") auto

subsection \<open>Notions used to state the properties\<close>

text \<open>Every key that \<open>FIELD_TERM_MAPPING\<close> reads is present in \<open>SEARCH_FIELDS\<close>.\<close>

definition provisioned :: "'q search_fields \<Rightarrow> bool" where
  "provisioned S = list_all (\<lambda>(f, k). S k \<noteq> None) FIELD_KEYS"

definition field_key :: "Field \<Rightarrow> string" where
  "field_key f = the (map_of FIELD_KEYS f)"

definition builder_of :: "'q search_fields \<Rightarrow> Field \<Rightarrow> 'q builder" where
  "builder_of S f = the (S (field_key f))"

text \<open>The value of \<open>current_operator\<close> after the loop has passed over the tokens given.\<close>

fun operator_after :: "Operator \<Rightarrow> pyval list \<Rightarrow> Operator" where
  "operator_after cur [] = cur"
| "operator_after cur (OperatorV tok # rest) = operator_after tok rest"
| "operator_after cur (_ # rest) = operator_after cur rest"

text \<open>
  Two laws of the library's match-all query \<open>Q()\<close>: it is a left identity of \<open>&\<close>, and
  \<open>|\<close> with it on the left gives match-all again.
\<close>

definition and_identity :: "'q dsl \<Rightarrow> bool" where
  "and_identity A = (\<forall>x. q_and A (Q_empty A) x = x)"

definition or_absorbing :: "'q dsl \<Rightarrow> bool" where
  "or_absorbing A = (\<forall>x. q_or A (Q_empty A) x = Q_empty A)"

text \<open>
  A concrete query algebra and a concrete \<open>SEARCH_FIELDS\<close> for evaluating the translator:
  leaf queries name the field key and the value, match-all and match-none combine as
  identities and absorbing elements, everything else is kept as written.
\<close>

datatype es_query = MatchAll | MatchNone | Match string pyval
  | QAnd es_query es_query | QOr es_query es_query | QNot es_query

fun es_and :: "es_query \<Rightarrow> es_query \<Rightarrow> es_query" where
  "es_and MatchAll y = y"
| "es_and MatchNone y = MatchNone"
| "es_and x MatchAll = x"
| "es_and x MatchNone = MatchNone"
| "es_and x y = QAnd x y"

fun es_or :: "es_query \<Rightarrow> es_query \<Rightarrow> es_query" where
  "es_or MatchAll y = MatchAll"
| "es_or MatchNone y = y"
| "es_or x MatchAll = MatchAll"
| "es_or x MatchNone = x"
| "es_or x y = QOr x y"

fun es_not :: "es_query \<Rightarrow> es_query" where
  "es_not MatchAll = MatchNone"
| "es_not MatchNone = MatchAll"
| "es_not x = QNot x"

definition es_dsl :: "es_query dsl" where
  "es_dsl = \<lparr>Q_empty = MatchAll, q_and = es_and, q_or = es_or, q_not = es_not\<rparr>"

definition sample_fields :: "es_query search_fields" where
  "sample_fields k = (if k \<in> set (map snd FIELD_KEYS) then Some (Match k) else None)"

section \<open>Highlight-safe previews (search/services/index/highlighting.py)\<close>

text \<open>
  The module \<open>highlighting\<close> is not among the sources; only its tests are
  (search/services/index/tests/test_results.py). Its functions are modelled from
  sections 4.2 and 4.3 of the specification. Offsets count characters from 0; a span
  \<open>(start, end, kind)\<close> covers the offsets from \<open>start\<close> up to, not including, \<open>end\<close>.
\<close>

datatype span_kind = TeX | Tag

type_synonym span = "nat \<times> nat \<times> span_kind"

text \<open>The offset of the first \<open>x\<close> in a string, if there is one.\<close>

fun find_char :: "char \<Rightarrow> string \<Rightarrow> nat option" where
  "find_char x [] = None"
| "find_char x (c # cs) = (if c = x then Some 0 else map_option Suc (find_char x cs))"

text \<open>
  The offset of the first \<open>x\<close> that is not escaped, that is, not directly preceded by a
  backslash (character 0x5C); \<open>prev\<close> is the character before the string.
\<close>

fun find_unescaped :: "char \<Rightarrow> char \<Rightarrow> string \<Rightarrow> nat option" where
  "find_unescaped x prev [] = None"
| "find_unescaped x prev (c # cs) =
     (if c = x \<and> prev \<noteq> CHR 0x5C then Some 0 else map_option Suc (find_unescaped x c cs))"

text \<open>
  Modelled from the spec: the Span Scanner \<open>findSpans\<close> (section 4.2), whose code is in
  the missing module. The text is read from left to right; \<open>i\<close> is the offset of the
  remaining text. At each offset the scanner reports an occurrence of the highlight start
  or end tag literal, else an HTML-like tag from \<open><\<close> to the next \<open>>\<close>, else a TeX span
  from \<open>$\<close> to the next unescaped \<open>$\<close>, and goes on behind the span it reported. An
  opening \<open><\<close> or \<open>$\<close> with no closer yields no span.
\<close>

function scan_spans :: "string \<Rightarrow> string \<Rightarrow> nat \<Rightarrow> string \<Rightarrow> span list" where
  "scan_spans start_tag end_tag i [] = []"
| "scan_spans start_tag end_tag i (c # cs) =
     (if start_tag \<noteq> [] \<and> prefix start_tag (c # cs) then
        (i, i + length start_tag, Tag)
          # scan_spans start_tag end_tag (i + length start_tag)
              (drop (length start_tag) (c # cs))
      else if end_tag \<noteq> [] \<and> prefix end_tag (c # cs) then
        (i, i + length end_tag, Tag)
          # scan_spans start_tag end_tag (i + length end_tag)
              (drop (length end_tag) (c # cs))
      else if c = CHR ''<'' then
        (case find_char CHR ''>'' cs of
           Some j \<Rightarrow>
             (i, i + j + 2, Tag) # scan_spans start_tag end_tag (i + j + 2) (drop (Suc j) cs)
         | None \<Rightarrow> scan_spans start_tag end_tag (Suc i) cs)
      else if c = CHR ''$'' then
        (case find_unescaped CHR ''$'' c cs of
           Some j \<Rightarrow>
             (i, i + j + 2, TeX) # scan_spans start_tag end_tag (i + j + 2) (drop (Suc j) cs)
         | None \<Rightarrow> scan_spans start_tag end_tag (Suc i) cs)
      else scan_spans start_tag end_tag (Suc i) cs)"
  by pat_completeness auto
termination
  by (relation "measure (\<lambda>(s, e, i, cs). length cs)") (auto simp: neq_Nil_conv)

definition findSpans :: "string \<Rightarrow> string \<Rightarrow> string \<Rightarrow> span list" where
  "findSpans text start_tag end_tag = scan_spans start_tag end_tag 0 text"

text \<open>
  Modelled from the spec: \<open>computeSafeEnd\<close> (section 4.3; \<open>_end_safely\<close> in the tests),
  whose code is in the missing module. The desired end is a Python integer, clamped at 0
  (section 7); the tolerance is a number of characters. A desired end strictly inside a
  span snaps to the span's end when that is at most \<open>tolerance\<close> away, to its start
  otherwise; with no such span the result is the desired end, clamped to the text.
\<close>

definition computeSafeEnd :: "string \<Rightarrow> int \<Rightarrow> string \<Rightarrow> string \<Rightarrow> nat \<Rightarrow> nat" where
  "computeSafeEnd text desiredEnd start_tag end_tag tolerance =
     (let d = nat desiredEnd in
      case find (\<lambda>(s, e, k). s < d \<and> d < e) (findSpans text start_tag end_tag) of
        Some (s, e, k) \<Rightarrow> if e - d \<le> tolerance then e else s
      | None \<Rightarrow> min d (length text))"

text \<open>
  Modelled from the spec: \<open>tagBalance\<close> (section 4.3; \<open>collapse_hl_tags\<close> in the tests),
  whose code is in the missing module: the number of occurrences of the start tag minus
  that of the end tag. Occurrences are counted as Python's \<open>str.count\<close> counts them: from
  the left, without overlap, and an empty tag once at every offset.
\<close>

function count_from :: "string \<Rightarrow> string \<Rightarrow> nat" where
  "count_from tag [] = 0"
| "count_from tag (c # cs) =
     (if tag \<noteq> [] \<and> prefix tag (c # cs)
      then Suc (count_from tag (drop (length tag) (c # cs)))
      else count_from tag cs)"
  by pat_completeness auto
termination
  by (relation "measure (\<lambda>(t, cs). length cs)") (auto simp: neq_Nil_conv)

definition count_occ :: "string \<Rightarrow> string \<Rightarrow> nat" where
  "count_occ tag text = (if tag = [] then Suc (length text) else count_from tag text)"

definition tagBalance :: "string \<Rightarrow> string \<Rightarrow> string \<Rightarrow> int" where
  "tagBalance text start_tag end_tag =
     int (count_occ start_tag text) - int (count_occ end_tag text)"

text \<open>
  Modelled from the spec: \<open>preview\<close> (section 4.3), whose code is in the missing module.
  The fixed tolerance it uses is not given by the specification and is a parameter.
\<close>

definition preview :: "string \<Rightarrow> int \<Rightarrow> string \<Rightarrow> string \<Rightarrow> nat \<Rightarrow> string" where
  "preview text fragment_size start_tag end_tag tolerance =
     (let end = computeSafeEnd text fragment_size start_tag end_tag tolerance;
          candidate = take end text;
          balance = tagBalance candidate start_tag end_tag
      in if balance > 0 then candidate @ concat (replicate (nat balance) end_tag)
         else candidate)"

subsection \<open>Notions used to state the properties\<close>

text \<open>
  Spans in a row between two offsets: each starts at or after the end of the one before,
  is not empty, and the last ends at or before \<open>hi\<close>.
\<close>

fun chained :: "nat \<Rightarrow> nat \<Rightarrow> span list \<Rightarrow> bool" where
  "chained lo hi [] = (lo \<le> hi)"
| "chained lo hi ((s, e, k) # rest) = (lo \<le> s \<and> s < e \<and> chained e hi rest)"

text \<open>
  Tag pairs as markup writes them: both open with \<open><\<close>, which occurs nowhere else in
  them, and neither begins with the other. A text made of such tags only is given by the
  sequence of its tags (\<open>True\<close> for the start tag).
\<close>

definition plain_tags :: "string \<Rightarrow> string \<Rightarrow> bool" where
  "plain_tags start_tag end_tag =
     (start_tag \<noteq> [] \<and> end_tag \<noteq> []
      \<and> hd start_tag = CHR ''<'' \<and> hd end_tag = CHR ''<''
      \<and> CHR ''<'' \<notin> set (tl start_tag) \<and> CHR ''<'' \<notin> set (tl end_tag)
      \<and> \<not> prefix start_tag end_tag \<and> \<not> prefix end_tag start_tag)"

definition render :: "string \<Rightarrow> string \<Rightarrow> bool list \<Rightarrow> string" where
  "render start_tag end_tag toks = concat (map (\<lambda>b. if b then start_tag else end_tag) toks)"

text \<open>The abstract of the tests (\<open>setUp\<close> of \<open>TestResultsEndSafely\<close>); \<open>bs\<close> is a backslash.\<close>

definition bs :: string where
  "bs = [CHR 0x5C]"

definition test_value :: string where
  "test_value =
     ''A search for the standard model (SM) Higgs boson ($'' @ bs @ ''mathrm{H}'' @
     ''$) decaying to $'' @ bs @ ''mathrm{b}'' @ bs @ ''overline{'' @ bs @
     ''mathrm{b}}$ when produced'' @
     '' in association with an electroweak vector boson is reported for'' @
     '' the following processes: <em>$'' @ bs @ ''mathrm{b}'' @ bs @ ''overline{'' @ bs @
     ''mathrm{b}}'' @
     ''('' @ bs @ ''nu'' @ bs @ ''nu)'' @ bs @ ''mathrm{H}$</em>, $'' @ bs @ ''mathrm{W}('' @
     bs @ ''mu'' @ bs @ ''nu)'' @ bs @ ''mathrm{H}$,'' @
     '' $'' @ bs @ ''mathrm{W}('' @ bs @ ''mathrm{e} '' @ bs @ ''nu)'' @ bs @ ''mathrm{H}$,'' @
     '' $'' @ bs @ ''mathrm{Z}('' @ bs @ ''mu'' @ bs @ ''mu)'' @ bs @ ''mathrm{H}$, and'' @
     '' $'' @ bs @ ''mathrm{Z}('' @ bs @ ''mathrm{e}'' @ bs @ ''mathrm{e})'' @ bs @
     ''mathrm{H}$.''"

definition short_text :: string where
  "short_text = ''ab <em>cd ef</em> gh''"

section \<open>The fulltext session (search/services/fulltext.py)\<close>

text \<open>
  What the function receives from outside is explicit. A decoded response body is a JSON
  value; \<open>response.json()\<close> either raises \<open>JSONDecodeError\<close> or returns one; \<open>requests.get\<close>
  either raises \<open>SSLError\<close>, the one exception the function catches, or returns a
  response.
\<close>

datatype json = JNull | JBool bool | JNumber int | JString string
  | JArray "json list" | JObject "(string \<times> json) list"

datatype json_result = JSONDecodeError string | Decoded json

record Response =
  status_code :: int
  json_body :: json_result

datatype get_result = SSLError string | Returned Response

text \<open>
  The environment of a call: \<open>urllib.parse.urljoin\<close>, \<open>requests.get\<close> as a function of the
  URL, and the constructor of \<open>Fulltext\<close> (class of \<open>search.domain\<close>, not among the
  sources) applied to keyword arguments, \<open>None\<close> when it rejects them with \<open>TypeError\<close>.
\<close>

record 'ft env =
  urljoin :: "string \<Rightarrow> string \<Rightarrow> string"
  requests_get :: "string \<Rightarrow> get_result"
  Fulltext :: "(string \<times> json) list \<Rightarrow> 'ft option"

text \<open>
  The session object: the retry count of its adapter, the prefix the adapter is mounted
  on, and the endpoint.
\<close>

record FulltextSession =
  max_retries :: nat
  mount_prefix :: string
  endpoint :: string

text \<open>\<open>FulltextSession.__init__\<close>: \<open>endpoint[-1]\<close> raises \<open>IndexError\<close> on the empty string.\<close>

definition FulltextSession_init :: "string \<Rightarrow> pyerror + FulltextSession" where
  "FulltextSession_init endpoint_arg =
     (case endpoint_arg of
        [] \<Rightarrow> Inl IndexError
      | _ # _ \<Rightarrow>
          Inr \<lparr>max_retries = 2, mount_prefix = ''https://'',
               endpoint = (if \<not> last endpoint_arg = CHR ''/'' then endpoint_arg @ ''/''
                           else endpoint_arg)\<rparr>)"

definition HTTPStatus_OK :: int where
  "HTTPStatus_OK = 200"

text \<open>
  \<open>FulltextSession.retrieve\<close>. The state is the session and the list of the URLs requested
  so far; the function returns its outcome with the state after the call.
  \<open>Fulltext(**data)\<close> raises \<open>TypeError\<close> when \<open>data\<close> is not a mapping, and when the
  constructor rejects the keywords.
\<close>

definition retrieve ::
  "'ft env \<Rightarrow> FulltextSession \<Rightarrow> string list \<Rightarrow> string
     \<Rightarrow> (pyerror + 'ft) \<times> FulltextSession \<times> string list" where
  "retrieve E self requested document_id =
     (if document_id = [] then (Inl (ValueError Invalid_document_id), self, requested)
      else
        let url = urljoin E (endpoint self) document_id;
            requested' = requested @ [url]
        in case requests_get E url of
             SSLError ex \<Rightarrow> (Inl (IOError (SSL_failed ex)), self, requested')
           | Returned response \<Rightarrow>
               if status_code response \<noteq> HTTPStatus_OK
               then (Inl (IOError (Could_not_retrieve document_id (status_code response))),
                     self, requested')
               else (case json_body response of
                       JSONDecodeError ex \<Rightarrow>
                         (Inl (IOError (Could_not_decode document_id ex)), self, requested')
                     | Decoded data \<Rightarrow>
                         (case data of
                            JObject kwargs \<Rightarrow>
                              (case Fulltext E kwargs of
                                 None \<Rightarrow> (Inl TypeError, self, requested')
                               | Some ft \<Rightarrow> (Inr ft, self, requested'))
                          | _ \<Rightarrow> (Inl TypeError, self, requested'))))"

text \<open>A sequence of \<open>retrieve\<close> calls on one session, the outcomes dropped.\<close>

fun retrieve_all ::
  "'ft env \<Rightarrow> FulltextSession \<Rightarrow> string list \<Rightarrow> string list
     \<Rightarrow> FulltextSession \<times> string list" where
  "retrieve_all E self requested [] = (self, requested)"
| "retrieve_all E self requested (document_id # rest) =
     (case retrieve E self requested document_id of
        (outcome, self', requested') \<Rightarrow> retrieve_all E self' requested' rest)"

text \<open>
  An environment in which every request is answered with status 200 and the JSON body
  \<open>[]\<close>, and a session for it.
\<close>

definition array_env :: "unit env" where
  "array_env =
     \<lparr>urljoin = (\<lambda>base rel. base @ rel),
      requests_get = (\<lambda>url. Returned \<lparr>status_code = 200, json_body = Decoded (JArray [])\<rparr>),
      Fulltext = (\<lambda>kwargs. Some ())\<rparr>"

definition sample_session :: FulltextSession where
  "sample_session =
     \<lparr>max_retries = 2, mount_prefix = ''https://'', endpoint = ''https://fulltext.arxiv.org/fulltext/''\<rparr>"

section \<open>Properties of the phrase translator\<close>

subsection \<open>Auxiliary facts\<close>

lemma build_mapping_Inr:
  "list_all (\<lambda>(f, k). S k \<noteq> None) ks \<Longrightarrow>
   build_mapping S ks = Inr (map (\<lambda>(f, k). (f, the (S k))) ks)"
  by (induction ks) (auto split: option.splits)

lemma field_key_simps:
  "field_key Author = ''author''" "field_key Comment = ''comments''"
  "field_key Identifier = ''paper_id''" "field_key JournalReference = ''journal_ref''"
  "field_key ReportNumber = ''report_num''"
  "field_key SubjectCategory = ''cross_list_category''"
  "field_key Title = ''title''" "field_key AllFields = ''all''"
  by (simp_all add: field_key_def FIELD_KEYS_def)

lemma term_to_query_provisioned:
  assumes "provisioned S"
  shows "term_to_query S [FieldV f, v] = Inr (builder_of S f v)"
proof -
  have m: "build_mapping S FIELD_KEYS = Inr (map (\<lambda>(f, k). (f, the (S k))) FIELD_KEYS)"
    using assms unfolding provisioned_def by (rule build_mapping_Inr)
  have "map_of (map (\<lambda>(f, k). (f, the (S k))) FIELD_KEYS) f = Some (builder_of S f)"
    by (cases f) (simp_all add: FIELD_KEYS_def builder_of_def field_key_simps)
  with m show ?thesis by (simp add: term_to_query.simps)
qed

text \<open>
  The loop over a concatenation: the second part starts from the accumulator the first
  part returns, under the operator the first part leaves in force.
\<close>

lemma phrase_loop_append:
  "phrase_loop A S (xs @ ys) q cur =
     (case phrase_loop A S xs q cur of
        Inl e \<Rightarrow> Inl e
      | Inr q' \<Rightarrow> phrase_loop A S ys q' (operator_after cur xs))"
proof (induction xs arbitrary: q cur)
  case Nil
  show ?case by simp
next
  case (Cons x xs)
  show ?case
    by (cases x) (auto simp: Cons.IH split: sum.splits simp del: phrase_to_query.simps)
qed

lemma sample_provisioned: "provisioned sample_fields"
  by (simp add: provisioned_def sample_fields_def FIELD_KEYS_def)

lemma sample_builder: "builder_of sample_fields f v = Match (field_key f) v"
  by (cases f) (simp_all add: builder_of_def field_key_simps sample_fields_def FIELD_KEYS_def)

lemma es_dsl_and_identity: "and_identity es_dsl"
  by (simp add: and_identity_def es_dsl_def)

lemma es_dsl_or_absorbing: "or_absorbing es_dsl"
  by (simp add: or_absorbing_def es_dsl_def)

subsection \<open>The base case\<close>

text \<open>
  C1, as amended. For a bare term \<open>(f, v)\<close> and a fully provisioned \<open>SEARCH_FIELDS\<close>,
  \<open>_phrase_to_query\<close> returns what leaf translation returns, the builder of \<open>f\<close> applied
  to \<open>v\<close>. The loop of the general case, run on the same phrase, passes over both
  elements, since neither is an operator or a tuple, and returns the match-all query
  \<open>Q()\<close>. The base case is therefore needed for the result; it is no shortcut.
\<close>

theorem bare_term_translation:
  assumes "provisioned S"
  shows "phrase_to_query A S [FieldV f, StrV v] = Inr (builder_of S f (StrV v))
       \<and> phrase_to_query A S [FieldV f, StrV v] = term_to_query S [FieldV f, StrV v]
       \<and> phrase_loop A S [FieldV f, StrV v] (Q_empty A) AND = Inr (Q_empty A)"
  using term_to_query_provisioned[OF assms] by simp

theorem bare_term_translation_witness:
  "provisioned sample_fields
   \<and> phrase_to_query es_dsl sample_fields [FieldV Title, StrV ''x'']
       = Inr (Match ''title'' (StrV ''x''))
   \<and> phrase_loop es_dsl sample_fields [FieldV Title, StrV ''x''] MatchAll AND = Inr MatchAll"
  using bare_term_translation[OF sample_provisioned, of es_dsl Title "''x''"]
  by (simp add: sample_provisioned sample_builder field_key_simps es_dsl_def
        del: phrase_to_query.simps phrase_loop.simps)

text \<open>
  C1 as stated fails: on the phrase \<open>(Field.Title, "x")\<close> the base case and the loop of
  the general case return different queries.
\<close>

theorem base_case_is_not_a_shortcut:
  "phrase_to_query es_dsl sample_fields [FieldV Title, StrV ''x'']
     \<noteq> phrase_loop es_dsl sample_fields [FieldV Title, StrV ''x''] (Q_empty es_dsl) AND"
  by (simp add: term_to_query_provisioned[OF sample_provisioned] sample_builder es_dsl_def)

subsection \<open>Operators\<close>

text \<open>
  C2. An operator token adds nothing to the accumulator and sets the operator for the
  tokens after it: the loop over \<open>pre @ [op] @ post\<close> is the loop over \<open>pre\<close> followed by
  the loop over \<open>post\<close> from the same accumulator under \<open>op\<close>, whatever operator was in
  force before; and after any tokens \<open>xs\<close> the operator in force is the last operator token
  of \<open>xs\<close>. In particular \<open>(A, OR, B, AND, C)\<close> for terms \<open>A\<close>, \<open>B\<close>, \<open>C\<close> translates to
  \<open>((Q() & a) | b) & c\<close>, which is \<open>(a | b) & c\<close> given that \<open>Q()\<close> is the identity of \<open>&\<close>.
\<close>

theorem operator_scopes_forward:
  "phrase_loop A S (pre @ OperatorV tok # post) q cur =
     (case phrase_loop A S pre q cur of
        Inl e \<Rightarrow> Inl e
      | Inr q' \<Rightarrow> phrase_loop A S post q' tok)
   \<and> phrase_loop A S (xs @ ys) q cur =
       (case phrase_loop A S xs q cur of
          Inl e \<Rightarrow> Inl e
        | Inr q' \<Rightarrow> phrase_loop A S ys q' (operator_after cur xs))
   \<and> (provisioned S \<longrightarrow>
        phrase_to_query A S
          [TupleV [FieldV fa, StrV a], OperatorV OR, TupleV [FieldV fb, StrV b],
           OperatorV AND, TupleV [FieldV fc, StrV c]]
        = Inr (q_and A
                 (q_or A (q_and A (Q_empty A) (builder_of S fa (StrV a)))
                    (builder_of S fb (StrV b)))
                 (builder_of S fc (StrV c))))
   \<and> (provisioned S \<and> and_identity A \<longrightarrow>
        phrase_to_query A S
          [TupleV [FieldV fa, StrV a], OperatorV OR, TupleV [FieldV fb, StrV b],
           OperatorV AND, TupleV [FieldV fc, StrV c]]
        = Inr (q_and A (q_or A (builder_of S fa (StrV a)) (builder_of S fb (StrV b)))
                 (builder_of S fc (StrV c))))"
proof (intro conjI impI)
  show "phrase_loop A S (pre @ OperatorV tok # post) q cur =
     (case phrase_loop A S pre q cur of
        Inl e \<Rightarrow> Inl e
      | Inr q' \<Rightarrow> phrase_loop A S post q' tok)"
    by (simp add: phrase_loop_append split: sum.splits)
next
  show "phrase_loop A S (xs @ ys) q cur =
       (case phrase_loop A S xs q cur of
          Inl e \<Rightarrow> Inl e
        | Inr q' \<Rightarrow> phrase_loop A S ys q' (operator_after cur xs))"
    by (rule phrase_loop_append)
next
  assume "provisioned S"
  then have t: "\<And>f v. term_to_query S [FieldV f, v] = Inr (builder_of S f v)"
    by (simp add: term_to_query_provisioned)
  show "phrase_to_query A S
          [TupleV [FieldV fa, StrV a], OperatorV OR, TupleV [FieldV fb, StrV b],
           OperatorV AND, TupleV [FieldV fc, StrV c]]
        = Inr (q_and A
                 (q_or A (q_and A (Q_empty A) (builder_of S fa (StrV a)))
                    (builder_of S fb (StrV b)))
                 (builder_of S fc (StrV c)))"
    by (simp add: t)
next
  assume h: "provisioned S \<and> and_identity A"
  then have t: "\<And>f v. term_to_query S [FieldV f, v] = Inr (builder_of S f v)"
    by (simp add: term_to_query_provisioned)
  from h have i: "\<And>x. q_and A (Q_empty A) x = x"
    by (simp add: and_identity_def)
  show "phrase_to_query A S
          [TupleV [FieldV fa, StrV a], OperatorV OR, TupleV [FieldV fb, StrV b],
           OperatorV AND, TupleV [FieldV fc, StrV c]]
        = Inr (q_and A (q_or A (builder_of S fa (StrV a)) (builder_of S fb (StrV b)))
                 (builder_of S fc (StrV c)))"
    by (simp add: t i)
qed

theorem operator_scopes_forward_witness:
  "provisioned sample_fields \<and> and_identity es_dsl
   \<and> phrase_to_query es_dsl sample_fields
          [TupleV [FieldV Title, StrV ''a''], OperatorV OR, TupleV [FieldV Author, StrV ''b''],
           OperatorV AND, TupleV [FieldV AllFields, StrV ''c'']]
        = Inr (QAnd (QOr (Match ''title'' (StrV ''a'')) (Match ''author'' (StrV ''b'')))
                 (Match ''all'' (StrV ''c'')))"
  using operator_scopes_forward[of es_dsl sample_fields "[]" OR "[]" MatchAll AND "[]" "[]"
      Title "''a''" Author "''b''" AllFields "''c''"]
  by (simp add: sample_provisioned es_dsl_and_identity sample_builder field_key_simps
        del: phrase_to_query.simps phrase_loop.simps) (simp add: es_dsl_def)

text \<open>
  C3. For terms \<open>A\<close> and \<open>B\<close> and a fully provisioned \<open>SEARCH_FIELDS\<close>: both terms
  translate, to \<open>qa\<close> and \<open>qb\<close>, and \<open>(A, ANDNOT, B)\<close> translates to \<open>(Q() & qa) & ~qb\<close>,
  which is \<open>qa & ~qb\<close>, the conjunction of the first with the negation of the second,
  given that \<open>Q()\<close> is the identity of \<open>&\<close>.
\<close>

theorem andnot_is_and_of_negation:
  assumes "provisioned S"
  shows "\<exists>qa qb.
           phrase_to_query A S [FieldV fa, StrV a] = Inr qa
         \<and> phrase_to_query A S [FieldV fb, StrV b] = Inr qb
         \<and> phrase_to_query A S
               [TupleV [FieldV fa, StrV a], OperatorV ANDNOT, TupleV [FieldV fb, StrV b]]
             = Inr (q_and A (q_and A (Q_empty A) qa) (q_not A qb))
         \<and> (and_identity A \<longrightarrow>
              phrase_to_query A S
                [TupleV [FieldV fa, StrV a], OperatorV ANDNOT, TupleV [FieldV fb, StrV b]]
              = Inr (q_and A qa (q_not A qb)))"
proof -
  have t: "\<And>f v. term_to_query S [FieldV f, v] = Inr (builder_of S f v)"
    using assms by (simp add: term_to_query_provisioned)
  show ?thesis
    by (simp add: t and_identity_def)
qed

theorem andnot_is_and_of_negation_witness:
  "provisioned sample_fields \<and> and_identity es_dsl
   \<and> (\<exists>qa qb.
           phrase_to_query es_dsl sample_fields [FieldV Title, StrV ''a''] = Inr qa
         \<and> phrase_to_query es_dsl sample_fields [FieldV Author, StrV ''b''] = Inr qb
         \<and> phrase_to_query es_dsl sample_fields
               [TupleV [FieldV Title, StrV ''a''], OperatorV ANDNOT,
                TupleV [FieldV Author, StrV ''b'']]
             = Inr (q_and es_dsl qa (q_not es_dsl qb)))"
proof -
  from andnot_is_and_of_negation[OF sample_provisioned, of es_dsl Title "''a''" Author "''b''"]
  obtain qa qb where
    "phrase_to_query es_dsl sample_fields [FieldV Title, StrV ''a''] = Inr qa"
    "phrase_to_query es_dsl sample_fields [FieldV Author, StrV ''b''] = Inr qb"
    "and_identity es_dsl \<longrightarrow>
       phrase_to_query es_dsl sample_fields
         [TupleV [FieldV Title, StrV ''a''], OperatorV ANDNOT,
          TupleV [FieldV Author, StrV ''b'']]
       = Inr (q_and es_dsl qa (q_not es_dsl qb))"
    by blast
  with sample_provisioned es_dsl_and_identity show ?thesis
    by blast
qed

text \<open>
  C5. With a fully provisioned \<open>SEARCH_FIELDS\<close>, \<open>(OR, T)\<close> for a term \<open>T\<close> translates to
  \<open>Q() | t\<close>, which is the match-all query \<open>Q()\<close> itself when \<open>|\<close> with \<open>Q()\<close> on the left
  gives \<open>Q()\<close>; and \<open>(ANDNOT, T)\<close> translates to \<open>Q() & ~t\<close>.
\<close>

theorem leading_or_andnot_degenerate:
  assumes "provisioned S"
  shows "phrase_to_query A S [OperatorV OR, TupleV [FieldV f, StrV v]]
           = Inr (q_or A (Q_empty A) (builder_of S f (StrV v)))
       \<and> (or_absorbing A \<longrightarrow>
            phrase_to_query A S [OperatorV OR, TupleV [FieldV f, StrV v]] = Inr (Q_empty A))
       \<and> phrase_to_query A S [OperatorV ANDNOT, TupleV [FieldV f, StrV v]]
           = Inr (q_and A (Q_empty A) (q_not A (builder_of S f (StrV v))))"
  using term_to_query_provisioned[OF assms]
  by (simp add: or_absorbing_def)

theorem leading_or_andnot_degenerate_witness:
  "provisioned sample_fields \<and> or_absorbing es_dsl
   \<and> phrase_to_query es_dsl sample_fields [OperatorV OR, TupleV [FieldV Title, StrV ''a'']]
       = Inr MatchAll
   \<and> phrase_to_query es_dsl sample_fields [OperatorV ANDNOT, TupleV [FieldV Title, StrV ''a'']]
       = Inr (QNot (Match ''title'' (StrV ''a'')))"
  using leading_or_andnot_degenerate[OF sample_provisioned, of es_dsl Title "''a''"]
  by (simp add: sample_provisioned es_dsl_or_absorbing sample_builder field_key_simps
        del: phrase_to_query.simps phrase_loop.simps) (simp add: es_dsl_def)

subsection \<open>Invalid phrase components\<close>

text \<open>
  C4, as amended. A token that is a non-empty tuple, does not start with an operator and
  has neither two nor three elements makes \<open>_phrase_to_query\<close> raise \<open>ValueError\<close> with
  that token in its message, when the phrase is not a bare term and the tokens before it
  were folded without error. A token that is a string or a field, neither an operator
  nor a tuple, is passed over.
\<close>

theorem invalid_tuple_component_raises:
  assumes "phrase = pre @ TupleV token # post"
    and "\<not> (is_Field (hd phrase) \<and> length phrase = 2)"
    and "phrase_loop A S pre (Q_empty A) AND = Inr q'"
    and "token \<noteq> []" and "\<not> is_Operator (hd token)"
    and "length token \<noteq> 2" and "length token \<noteq> 3"
  shows "phrase_to_query A S phrase
           = Inl (ValueError (Invalid_phrase_component (TupleV token)))
       \<and> phrase_loop A S (StrV s # rest) q cur = phrase_loop A S rest q cur
       \<and> phrase_loop A S (FieldV f # rest) q cur = phrase_loop A S rest q cur"
proof -
  have "phrase_loop A S (TupleV token # post) q' (operator_after AND pre)
          = Inl (ValueError (Invalid_phrase_component (TupleV token)))"
    using assms(4-7) by (cases token) simp_all
  then have "phrase_loop A S phrase (Q_empty A) AND
          = Inl (ValueError (Invalid_phrase_component (TupleV token)))"
    using assms(1,3) by (simp add: phrase_loop_append del: phrase_loop.simps)
  moreover have "phrase_to_query A S phrase = phrase_loop A S phrase (Q_empty A) AND"
  proof -
    from assms(1) have "phrase \<noteq> []"
      by simp
    then obtain p0 ps where p: "phrase = p0 # ps"
      by (auto simp: neq_Nil_conv)
    with assms(2) have "\<not> (is_Field p0 \<and> length (p0 # ps) = 2)"
      by simp
    then show ?thesis
      unfolding p by (auto simp del: phrase_loop.simps)
  qed
  ultimately show ?thesis by simp
qed

theorem invalid_tuple_component_raises_witness:
  "phrase_to_query es_dsl sample_fields
      [TupleV [FieldV Title, StrV ''a''], OperatorV OR, TupleV [StrV ''b'']]
     = Inl (ValueError (Invalid_phrase_component (TupleV [StrV ''b''])))"
  using invalid_tuple_component_raises[of
      "[TupleV [FieldV Title, StrV ''a''], OperatorV OR, TupleV [StrV ''b'']]"
      "[TupleV [FieldV Title, StrV ''a''], OperatorV OR]" "[StrV ''b'']" "[]"
      es_dsl sample_fields "Match ''title'' (StrV ''a'')"]
  by (simp add: term_to_query_provisioned[OF sample_provisioned] sample_builder
        field_key_simps es_dsl_def)

text \<open>
  C4 as stated fails: the phrase \<open>((Field.Title, "a"), "junk")\<close> holds the token \<open>"junk"\<close>,
  which is no operator, no term and no nested phrase, and is translated to a query.
\<close>

theorem stray_token_is_skipped:
  "phrase_to_query es_dsl sample_fields [TupleV [FieldV Title, StrV ''a''], StrV ''junk'']
     = Inr (Match ''title'' (StrV ''a''))"
  by (simp add: term_to_query_provisioned[OF sample_provisioned] sample_builder
        field_key_simps es_dsl_def)

section \<open>Properties of the highlight-safe previews\<close>

subsection \<open>The spans of the scanner\<close>

lemma chained_lower: "chained lo hi xs \<Longrightarrow> lo' \<le> lo \<Longrightarrow> chained lo' hi xs"
  by (cases xs) auto

lemma chained_le: "chained lo hi xs \<Longrightarrow> lo \<le> hi"
  by (induction xs arbitrary: lo) fastforce+

lemma chained_bounds:
  "chained lo hi xs \<Longrightarrow> (s, e, k) \<in> set xs \<Longrightarrow> lo \<le> s \<and> s < e \<and> e \<le> hi"
proof (induction xs arbitrary: lo)
  case Nil
  then show ?case by simp
next
  case (Cons x xs)
  obtain s0 e0 k0 where x: "x = (s0, e0, k0)" by (cases x)
  from Cons.prems(1) x have c: "lo \<le> s0" "s0 < e0" "chained e0 hi xs" by simp_all
  show ?case
  proof (cases "(s, e, k) = x")
    case True
    with x c chained_le[OF c(3)] show ?thesis by simp
  next
    case False
    with Cons.prems(2) have "(s, e, k) \<in> set xs" by simp
    from Cons.IH[OF c(3) this] c show ?thesis by simp
  qed
qed

lemma chained_disjoint:
  "chained lo hi xs \<Longrightarrow> (s1, e1, k1) \<in> set xs \<Longrightarrow> (s2, e2, k2) \<in> set xs \<Longrightarrow>
   (s1, e1, k1) = (s2, e2, k2) \<or> e1 \<le> s2 \<or> e2 \<le> s1"
proof (induction xs arbitrary: lo)
  case Nil
  then show ?case by simp
next
  case (Cons x xs)
  obtain s0 e0 k0 where x: "x = (s0, e0, k0)" by (cases x)
  from Cons.prems(1) x have c: "lo \<le> s0" "s0 < e0" "chained e0 hi xs" by simp_all
  have later: "\<And>s e k. (s, e, k) \<in> set xs \<Longrightarrow> e0 \<le> s"
    using chained_bounds[OF c(3)] by blast
  consider "(s1, e1, k1) = x" "(s2, e2, k2) = x"
    | "(s1, e1, k1) = x" "(s2, e2, k2) \<in> set xs"
    | "(s1, e1, k1) \<in> set xs" "(s2, e2, k2) = x"
    | "(s1, e1, k1) \<in> set xs" "(s2, e2, k2) \<in> set xs"
    using Cons.prems(2,3) by auto
  then show ?case
  proof cases
    case 1
    then show ?thesis by simp
  next
    case 2
    with x later[OF 2(2)] show ?thesis by simp
  next
    case 3
    with x later[OF 3(1)] show ?thesis by simp
  next
    case 4
    then show ?thesis using Cons.IH[OF c(3)] by simp
  qed
qed

lemma find_char_less: "find_char x cs = Some j \<Longrightarrow> j < length cs"
  by (induction cs arbitrary: j) (auto split: if_splits)

lemma find_unescaped_less: "find_unescaped x p cs = Some j \<Longrightarrow> j < length cs"
  by (induction cs arbitrary: j p) (auto split: if_splits)

lemma scan_spans_chained: "chained i (i + length cs) (scan_spans st et i cs)"
proof (induction st et i cs rule: scan_spans.induct)
  case (1 st et i)
  show ?case by simp
next
  case (2 st et i c cs)
  show ?case
  proof (cases "st \<noteq> [] \<and> prefix st (c # cs)")
    case True
    then have "length st \<le> length (c # cs)" "0 < length st"
      by (auto dest: prefix_length_le)
    with True 2(1) show ?thesis by auto
  next
    case nst: False
    show ?thesis
    proof (cases "et \<noteq> [] \<and> prefix et (c # cs)")
      case True
      then have "length et \<le> length (c # cs)" "0 < length et"
        by (auto dest: prefix_length_le)
      with True nst 2(2) show ?thesis by auto
    next
      case net: False
      show ?thesis
      proof (cases "c = CHR ''<''")
        case lt: True
        show ?thesis
        proof (cases "find_char CHR ''>'' cs")
          case None
          from 2(3)[OF nst net lt None] have "chained i (Suc i + length cs) (scan_spans st et (Suc i) cs)"
            by (rule chained_lower) simp
          with nst net lt None show ?thesis by auto
        next
          case (Some j)
          from find_char_less[OF Some]
          have eq: "i + j + 2 + length (drop (Suc j) cs) = Suc i + length cs"
            by simp
          have "chained (i + j + 2) (Suc i + length cs) (scan_spans st et (i + j + 2) (drop (Suc j) cs))"
            using 2(4)[OF nst net lt Some] unfolding eq .
          with nst net lt Some show ?thesis by auto
        qed
      next
        case nlt: False
        show ?thesis
        proof (cases "c = CHR ''$''")
          case dl: True
          show ?thesis
          proof (cases "find_unescaped CHR ''$'' c cs")
            case None
            from 2(5)[OF nst net nlt dl None] have "chained i (Suc i + length cs) (scan_spans st et (Suc i) cs)"
              by (rule chained_lower) simp
            with nst net nlt dl None show ?thesis by auto
          next
            case (Some j)
            from find_unescaped_less[OF Some]
            have eq: "i + j + 2 + length (drop (Suc j) cs) = Suc i + length cs"
              by simp
            have "chained (i + j + 2) (Suc i + length cs) (scan_spans st et (i + j + 2) (drop (Suc j) cs))"
              using 2(6)[OF nst net nlt dl Some] unfolding eq .
            with nst net nlt dl Some show ?thesis by auto
          qed
        next
          case ndl: False
          from 2(7)[OF nst net nlt ndl] have "chained i (Suc i + length cs) (scan_spans st et (Suc i) cs)"
            by (rule chained_lower) simp
          with nst net nlt ndl show ?thesis by auto
        qed
      qed
    qed
  qed
qed

lemma findSpans_chained: "chained 0 (length text) (findSpans text st et)"
  using scan_spans_chained[of 0 "text" st et] by (simp add: findSpans_def)


lemma computeSafeEnd_cases:
  "(\<exists>s e k. (s, e, k) \<in> set (findSpans tx st et) \<and> s < nat d \<and> nat d < e
        \<and> computeSafeEnd tx d st et tol = (if e - nat d \<le> tol then e else s))
   \<or> ((\<forall>(s, e, k) \<in> set (findSpans tx st et). \<not> (s < nat d \<and> nat d < e))
        \<and> computeSafeEnd tx d st et tol = min (nat d) (length tx))"
proof (cases "find (\<lambda>(s, e, k). s < nat d \<and> nat d < e) (findSpans tx st et)")
  case None
  then have "\<forall>(s, e, k) \<in> set (findSpans tx st et). \<not> (s < nat d \<and> nat d < e)"
    by (auto simp: find_None_iff)
  with None show ?thesis
    by (simp add: computeSafeEnd_def)
next
  case (Some x)
  obtain s e k where x: "x = (s, e, k)" by (cases x)
  from Some x have "(s, e, k) \<in> set (findSpans tx st et)" "s < nat d \<and> nat d < e"
    by (auto simp: find_Some_iff in_set_conv_nth)
  with Some x show ?thesis
    by (auto simp: computeSafeEnd_def)
qed

lemma no_span_split:
  assumes "(s, e, k) \<in> set (findSpans tx st et)"
  shows "\<not> (s < computeSafeEnd tx d st et tol \<and> computeSafeEnd tx d st et tol < e)"
proof -
  let ?r = "computeSafeEnd tx d st et tol"
  note ch = findSpans_chained[of tx st et]
  from computeSafeEnd_cases[of tx st et d tol]
  show ?thesis
  proof (elim disjE exE conjE)
    fix s0 e0 k0
    assume m: "(s0, e0, k0) \<in> set (findSpans tx st et)"
      and r: "?r = (if e0 - nat d \<le> tol then e0 else s0)"
    from chained_bounds[OF ch m] have b: "s0 < e0" by simp
    from chained_disjoint[OF ch m assms]
    consider "(s0, e0, k0) = (s, e, k)" | "e0 \<le> s" | "e \<le> s0" by blast
    then show ?thesis
      using r b by cases (auto split: if_splits)
  next
    assume n: "\<forall>(s, e, k) \<in> set (findSpans tx st et). \<not> (s < nat d \<and> nat d < e)"
      and r: "?r = min (nat d) (length tx)"
    from chained_bounds[OF ch assms] have "e \<le> length tx" by simp
    moreover from n assms have "\<not> (s < nat d \<and> nat d < e)" by blast
    ultimately show ?thesis using r by (auto simp: min_def)
  qed
qed

lemma computeSafeEnd_le_length: "computeSafeEnd tx d st et tol \<le> length tx"
proof -
  note ch = findSpans_chained[of tx st et]
  from computeSafeEnd_cases[of tx st et d tol]
  show ?thesis
  proof (elim disjE exE conjE)
    fix s e k
    assume m: "(s, e, k) \<in> set (findSpans tx st et)"
      and r: "computeSafeEnd tx d st et tol = (if e - nat d \<le> tol then e else s)"
    from chained_bounds[OF ch m] show ?thesis using r by auto
  next
    assume "computeSafeEnd tx d st et tol = min (nat d) (length tx)"
    then show ?thesis by simp
  qed
qed

lemma computeSafeEnd_le_desired: "computeSafeEnd tx d st et tol \<le> nat d + tol"
  using computeSafeEnd_cases[of tx st et d tol] by (auto split: if_splits)

lemma computeSafeEnd_inside:
  assumes "(s, e, k) \<in> set (findSpans tx st et)" and "s < nat d" and "nat d < e"
  shows "computeSafeEnd tx d st et tol = (if e - nat d \<le> tol then e else s)"
proof -
  note ch = findSpans_chained[of tx st et]
  from computeSafeEnd_cases[of tx st et d tol]
  show ?thesis
  proof (elim disjE exE conjE)
    fix s0 e0 k0
    assume m: "(s0, e0, k0) \<in> set (findSpans tx st et)"
      and i: "s0 < nat d" "nat d < e0"
      and r: "computeSafeEnd tx d st et tol = (if e0 - nat d \<le> tol then e0 else s0)"
    from chained_disjoint[OF ch m assms(1)] i assms(2,3)
    have "(s0, e0, k0) = (s, e, k)" by auto
    with r show ?thesis by simp
  next
    assume "\<forall>(s, e, k) \<in> set (findSpans tx st et). \<not> (s < nat d \<and> nat d < e)"
    with assms show ?thesis by blast
  qed
qed

lemma computeSafeEnd_outside:
  assumes "\<forall>(s, e, k) \<in> set (findSpans tx st et). \<not> (s < nat d \<and> nat d < e)"
  shows "computeSafeEnd tx d st et tol = min (nat d) (length tx)"
  using computeSafeEnd_cases[of tx st et d tol] assms by blast

subsection \<open>The repository's tests of \<open>_end_safely\<close>\<close>

text \<open>
  The model gives the values that \<open>TestResultsEndSafely\<close> expects of \<open>_end_safely\<close> on the
  abstract of the tests, with the tags \<open><em>\<close> and \<open></em>\<close> and no tolerance. The preview
  of section 4.3 of that abstract at fragment size 350 has 347 characters without
  tolerance and more than 338 with any tolerance; the test \<open>test_preview\<close> of the
  repository expects at most 338 of its \<open>preview\<close>.
\<close>

lemma findSpans_test_value:
  "findSpans test_value ''<em>'' ''</em>'' =
     [(50, 62, TeX), (76, 109, TeX), (213, 217, Tag), (217, 268, TeX), (268, 273, Tag),
      (275, 305, TeX), (307, 345, TeX), (347, 377, TeX), (383, 427, TeX)]"
  by code_simp

lemma end_safely_tests:
  "computeSafeEnd test_value 45 ''<em>'' ''</em>'' 0 = 45"
  "computeSafeEnd test_value 55 ''<em>'' ''</em>'' 0 = 50"
  "computeSafeEnd test_value 215 ''<em>'' ''</em>'' 0 = 213"
  "computeSafeEnd test_value 275 ''<em>'' ''</em>'' 0 = 275"
  by code_simp+

lemma preview_test_value_length:
  "length (preview test_value 350 ''<em>'' ''</em>'' 0) = 347"
  by code_simp

lemma preview_test_value_exceeds_338:
  "338 < length (preview test_value 350 ''<em>'' ''</em>'' tol)"
proof -
  have m: "(347, 377, TeX) \<in> set (findSpans test_value ''<em>'' ''</em>'')"
    by (simp add: findSpans_test_value)
  have e: "computeSafeEnd test_value 350 ''<em>'' ''</em>'' tol
             = (if 377 - nat 350 \<le> tol then 377 else 347)"
    using computeSafeEnd_inside[OF m, of 350 tol] by simp
  have l: "length test_value = 428"
    by (simp add: test_value_def bs_def)
  have c: "347 \<le> length (take (computeSafeEnd test_value 350 ''<em>'' ''</em>'' tol) test_value)"
    using e l by simp
  have "length (take (computeSafeEnd test_value 350 ''<em>'' ''</em>'' tol) test_value)
          \<le> length (preview test_value 350 ''<em>'' ''</em>'' tol)"
    by (simp add: preview_def Let_def del: length_take)
  with c show ?thesis
    by linarith
qed

subsection \<open>\<open>computeSafeEnd\<close>\<close>

text \<open>
  C6. For every text, desired end, tag pair and tolerance, the offset that
  \<open>computeSafeEnd\<close> returns is at most the length of the text and lies strictly inside no
  span of \<open>findSpans\<close>. If the desired end (clamped at 0) lies strictly inside a span, the
  result is the end of that span when the end is at most \<open>tolerance\<close> away from the desired
  end, and the start of that span otherwise. If it lies strictly inside no span, the
  result is the minimum of the desired end and the length of the text.
\<close>

theorem computeSafeEnd_contract:
  "computeSafeEnd tx d st et tol \<le> length tx
   \<and> (\<forall>(s, e, k) \<in> set (findSpans tx st et).
         \<not> (s < computeSafeEnd tx d st et tol \<and> computeSafeEnd tx d st et tol < e))
   \<and> (\<forall>(s, e, k) \<in> set (findSpans tx st et).
         s < nat d \<and> nat d < e \<longrightarrow>
         computeSafeEnd tx d st et tol = (if e - nat d \<le> tol then e else s))
   \<and> ((\<forall>(s, e, k) \<in> set (findSpans tx st et). \<not> (s < nat d \<and> nat d < e)) \<longrightarrow>
         computeSafeEnd tx d st et tol = min (nat d) (length tx))"
proof (intro conjI)
  show "computeSafeEnd tx d st et tol \<le> length tx"
    by (rule computeSafeEnd_le_length)
  show "\<forall>(s, e, k) \<in> set (findSpans tx st et).
         \<not> (s < computeSafeEnd tx d st et tol \<and> computeSafeEnd tx d st et tol < e)"
    using no_span_split by blast
  show "\<forall>(s, e, k) \<in> set (findSpans tx st et).
         s < nat d \<and> nat d < e \<longrightarrow>
         computeSafeEnd tx d st et tol = (if e - nat d \<le> tol then e else s)"
    using computeSafeEnd_inside by blast
  show "(\<forall>(s, e, k) \<in> set (findSpans tx st et). \<not> (s < nat d \<and> nat d < e)) \<longrightarrow>
         computeSafeEnd tx d st et tol = min (nat d) (length tx)"
    using computeSafeEnd_outside by blast
qed

lemma findSpans_short_text:
  "findSpans short_text ''<em>'' ''</em>'' = [(3, 7, Tag), (12, 17, Tag)]"
  by code_simp

theorem computeSafeEnd_contract_witness:
  "findSpans short_text ''<em>'' ''</em>'' = [(3, 7, Tag), (12, 17, Tag)]
   \<and> computeSafeEnd short_text 15 ''<em>'' ''</em>'' 0 = 12
   \<and> computeSafeEnd short_text 15 ''<em>'' ''</em>'' 2 = 17
   \<and> computeSafeEnd short_text 9 ''<em>'' ''</em>'' 2 = 9
   \<and> computeSafeEnd short_text 40 ''<em>'' ''</em>'' 2 = 20"
proof -
  have len: "length short_text = 20"
    by (simp add: short_text_def)
  show ?thesis
    using computeSafeEnd_contract[of short_text 15 "''<em>''" "''</em>''" 0]
      computeSafeEnd_contract[of short_text 15 "''<em>''" "''</em>''" 2]
      computeSafeEnd_contract[of short_text 9 "''<em>''" "''</em>''" 2]
      computeSafeEnd_contract[of short_text 40 "''<em>''" "''</em>''" 2]
    unfolding findSpans_short_text len by simp
qed

subsection \<open>\<open>tagBalance\<close>\<close>

lemma count_from_skip:
  "x \<notin> set xs \<Longrightarrow> count_from (x # a) (xs @ rest) = count_from (x # a) rest"
  by (induction xs) auto

lemma count_from_same:
  "tag \<noteq> [] \<Longrightarrow> count_from tag (tag @ rest) = Suc (count_from tag rest)"
  by (cases tag) auto

lemma count_from_other:
  assumes "tag \<noteq> []" and "other \<noteq> []" and "hd tag \<notin> set (tl other)"
    and "\<not> prefix tag other" and "\<not> prefix other tag"
  shows "count_from tag (other @ rest) = count_from tag rest"
proof -
  from assms(1) obtain x a where t: "tag = x # a" by (cases tag) auto
  from assms(2) obtain y os where o: "other = y # os" by (cases other) auto
  have "\<not> prefix tag (other @ rest)"
    using assms(4,5) by (auto simp: prefix_append)
  then have "count_from tag (other @ rest) = count_from tag (os @ rest)"
    by (simp add: o)
  also have "\<dots> = count_from tag rest"
    using assms(3) unfolding t o by (simp add: count_from_skip)
  finally show ?thesis .
qed

lemma count_from_render:
  assumes "plain_tags st et"
  shows "count_from st (render st et toks) = length (filter id toks)"
    and "count_from et (render st et toks) = length (filter Not toks)"
proof -
  from assms have ne: "st \<noteq> []" "et \<noteq> []"
    and h: "hd st \<notin> set (tl et)" "hd et \<notin> set (tl st)"
    and np: "\<not> prefix st et" "\<not> prefix et st"
    by (auto simp: plain_tags_def)
  show "count_from st (render st et toks) = length (filter id toks)"
    by (induction toks)
      (simp_all add: render_def count_from_same[OF ne(1)]
         count_from_other[OF ne(1) ne(2) h(1) np(1) np(2)] del: count_from.simps(2))
  show "count_from et (render st et toks) = length (filter Not toks)"
    by (induction toks)
      (simp_all add: render_def count_from_same[OF ne(2)]
         count_from_other[OF ne(2) ne(1) h(2) np(2) np(1)] del: count_from.simps(2))
qed

lemma tagBalance_render:
  assumes "plain_tags st et"
  shows "tagBalance (render st et toks) st et
           = int (length (filter id toks)) - int (length (filter Not toks))"
proof -
  from assms have "st \<noteq> []" "et \<noteq> []" by (auto simp: plain_tags_def)
  then show ?thesis
    by (simp add: tagBalance_def count_occ_def count_from_render[OF assms])
qed

text \<open>
  C7. For every text and tag pair \<open>tagBalance\<close> is the number of occurrences of the start
  tag minus that of the end tag, so it is 0 on a text in which neither tag occurs. For
  tags as markup writes them (\<open>plain_tags\<close>) and a text that is any sequence of the two
  tags, it is the number of start tags minus the number of end tags in the sequence,
  whatever their order; in particular 0 on the empty text, 3 and -3 on three start tags
  and on three end tags, 1 on start-start-end, -1 on start-end-end, and 0 on
  start-start-end-end and on start-end-start-end.
\<close>

theorem tagBalance_net_count:
  "tagBalance tx st et = int (count_occ st tx) - int (count_occ et tx)
   \<and> (count_occ st tx = 0 \<and> count_occ et tx = 0 \<longrightarrow> tagBalance tx st et = 0)
   \<and> (plain_tags st et \<longrightarrow>
        tagBalance (render st et toks) st et
          = int (length (filter id toks)) - int (length (filter Not toks))
      \<and> tagBalance [] st et = 0
      \<and> tagBalance (st @ st @ st) st et = 3
      \<and> tagBalance (et @ et @ et) st et = - 3
      \<and> tagBalance (st @ st @ et) st et = 1
      \<and> tagBalance (st @ et @ et) st et = - 1
      \<and> tagBalance (st @ st @ et @ et) st et = 0
      \<and> tagBalance (st @ et @ st @ et) st et = 0)"
proof (intro conjI impI)
  assume p: "plain_tags st et"
  show "tagBalance (render st et toks) st et
          = int (length (filter id toks)) - int (length (filter Not toks))"
    by (rule tagBalance_render[OF p])
  show "tagBalance [] st et = 0"
    using tagBalance_render[OF p, of "[]"] by (simp add: render_def)
  show "tagBalance (st @ st @ st) st et = 3"
    using tagBalance_render[OF p, of "[True, True, True]"] by (simp add: render_def)
  show "tagBalance (et @ et @ et) st et = - 3"
    using tagBalance_render[OF p, of "[False, False, False]"] by (simp add: render_def)
  show "tagBalance (st @ st @ et) st et = 1"
    using tagBalance_render[OF p, of "[True, True, False]"] by (simp add: render_def)
  show "tagBalance (st @ et @ et) st et = - 1"
    using tagBalance_render[OF p, of "[True, False, False]"] by (simp add: render_def)
  show "tagBalance (st @ st @ et @ et) st et = 0"
    using tagBalance_render[OF p, of "[True, True, False, False]"] by (simp add: render_def)
  show "tagBalance (st @ et @ st @ et) st et = 0"
    using tagBalance_render[OF p, of "[True, False, True, False]"] by (simp add: render_def)
qed (simp_all add: tagBalance_def)

lemma plain_em: "plain_tags ''<em>'' ''</em>''"
  by (simp add: plain_tags_def)

theorem tagBalance_net_count_witness:
  "plain_tags ''<em>'' ''</em>''
   \<and> count_occ ''<em>'' ''something or other <tag> </closetag> but not important'' = 0
   \<and> count_occ ''</em>'' ''something or other <tag> </closetag> but not important'' = 0
   \<and> tagBalance ''something or other <tag> </closetag> but not important'' ''<em>'' ''</em>'' = 0
   \<and> tagBalance ''<em><em><em>'' ''<em>'' ''</em>'' = 3
   \<and> tagBalance ''<em><em></em>'' ''<em>'' ''</em>'' = 1
   \<and> tagBalance ''<em></em></em>'' ''<em>'' ''</em>'' = - 1
   \<and> tagBalance ''<em></em><em></em>'' ''<em>'' ''</em>'' = 0"
proof -
  have c: "count_occ ''<em>'' ''something or other <tag> </closetag> but not important'' = 0"
    "count_occ ''</em>'' ''something or other <tag> </closetag> but not important'' = 0"
    by code_simp+
  from tagBalance_net_count[of "''something or other <tag> </closetag> but not important''"
      "''<em>''" "''</em>''" "[]"] c plain_em
  show ?thesis by simp
qed

subsection \<open>\<open>preview\<close>\<close>

text \<open>
  C8. For every text, fragment size, tag pair and tolerance, with \<open>e\<close> the offset of
  \<open>computeSafeEnd\<close>, the candidate the first \<open>e\<close> characters of the text and \<open>balance\<close> the
  \<open>tagBalance\<close> of the candidate: \<open>preview\<close> is the candidate followed by \<open>balance\<close> copies
  of the end tag when \<open>balance > 0\<close>, and the candidate itself otherwise; its length is at
  most the fragment size (clamped at 0) plus the tolerance plus the length of the end
  tags appended; and \<open>e\<close> lies strictly inside no span of \<open>findSpans\<close>.
\<close>

theorem preview_contract:
  "(let e = computeSafeEnd tx fs st et tol;
        candidate = take e tx;
        balance = tagBalance candidate st et
    in preview tx fs st et tol
         = (if balance > 0 then candidate @ concat (replicate (nat balance) et) else candidate)
     \<and> length (preview tx fs st et tol) \<le> nat fs + tol + nat balance * length et
     \<and> (\<forall>(s, e', k) \<in> set (findSpans tx st et). \<not> (s < e \<and> e < e')))"
proof -
  have "length (take (computeSafeEnd tx fs st et tol) tx) \<le> nat fs + tol"
    using computeSafeEnd_le_desired[of tx fs st et tol] by simp
  moreover have "\<forall>(s, e', k) \<in> set (findSpans tx st et).
      \<not> (s < computeSafeEnd tx fs st et tol \<and> computeSafeEnd tx fs st et tol < e')"
    using no_span_split by blast
  ultimately show ?thesis
    by (simp add: preview_def Let_def length_concat sum_list_replicate)
qed

theorem preview_contract_witness:
  "computeSafeEnd short_text 9 ''<em>'' ''</em>'' 0 = 9
   \<and> tagBalance (take 9 short_text) ''<em>'' ''</em>'' = 1
   \<and> preview short_text 9 ''<em>'' ''</em>'' 0 = ''ab <em>cd</em>''
   \<and> length (preview short_text 9 ''<em>'' ''</em>'' 0) \<le> 9 + 0 + 1 * 5"
proof -
  have e: "computeSafeEnd short_text 9 ''<em>'' ''</em>'' 0 = 9"
    by code_simp
  have b: "tagBalance (take 9 short_text) ''<em>'' ''</em>'' = 1"
    by code_simp
  have t: "take 9 short_text = ''ab <em>cd''"
    by (simp add: short_text_def)
  from preview_contract[of short_text 9 "''<em>''" "''</em>''" 0]
  show ?thesis
    unfolding Let_def e b by (simp add: t)
qed

section \<open>Properties of the fulltext session\<close>

subsection \<open>The outcomes of \<open>retrieve\<close>\<close>

text \<open>
  \<open>ValueError\<close> is raised exactly for the empty identifier, and then nothing is requested;
  \<open>IOError\<close> is raised exactly for a non-empty identifier when the request fails with
  \<open>SSLError\<close>, the status is not 200, or the body is not JSON.
\<close>

lemma retrieve_ValueError_iff:
  "(\<exists>m. fst (retrieve E self requested document_id) = Inl (ValueError m))
     = (document_id = [])"
  by (auto simp: retrieve_def Let_def
      split: get_result.splits json_result.splits json.splits option.splits)

lemma retrieve_empty_requests_nothing:
  "retrieve E self requested [] = (Inl (ValueError Invalid_document_id), self, requested)"
  by (simp add: retrieve_def)

lemma retrieve_IOError_iff:
  "(\<exists>m. fst (retrieve E self requested document_id) = Inl (IOError m)) =
     (document_id \<noteq> [] \<and>
      (case requests_get E (urljoin E (endpoint self) document_id) of
         SSLError ex \<Rightarrow> True
       | Returned response \<Rightarrow>
           status_code response \<noteq> 200 \<or> (\<exists>ex. json_body response = JSONDecodeError ex)))"
  by (auto simp: retrieve_def Let_def HTTPStatus_OK_def
      split: get_result.splits json_result.splits json.splits option.splits)

text \<open>
  The remaining case, a non-empty identifier answered with status 200 and a JSON body:
  the outcome is what \<open>Fulltext(**data)\<close> gives, a \<open>Fulltext\<close> or \<open>TypeError\<close>.
\<close>

lemma retrieve_decoded:
  assumes "document_id \<noteq> []"
    and "requests_get E (urljoin E (endpoint self) document_id) = Returned response"
    and "status_code response = 200"
    and "json_body response = Decoded data"
  shows "fst (retrieve E self requested document_id) =
     (case data of
        JObject kwargs \<Rightarrow> (case Fulltext E kwargs of None \<Rightarrow> Inl TypeError | Some ft \<Rightarrow> Inr ft)
      | _ \<Rightarrow> Inl TypeError)"
  using assms
  by (simp add: retrieve_def Let_def HTTPStatus_OK_def split: json.splits option.splits)

text \<open>
  C9 fails on the code. The identifier \<open>1234.5678v1\<close> is not empty, the request succeeds
  with status 200 and the body \<open>[]\<close>, which is JSON; \<open>retrieve\<close> then raises \<open>TypeError\<close>
  from \<open>Fulltext(**data)\<close>: it returns no \<open>Fulltext\<close> and raises neither \<open>ValueError\<close> nor
  \<open>IOError\<close>.
\<close>

theorem retrieve_array_body_raises_TypeError:
  "fst (retrieve array_env sample_session [] ''1234.5678v1'') = Inl TypeError"
  by (simp add: retrieve_def array_env_def sample_session_def HTTPStatus_OK_def)

subsection \<open>The endpoint of a session\<close>

lemma retrieve_self: "fst (snd (retrieve E self requested document_id)) = self"
  by (simp add: retrieve_def Let_def
      split: get_result.splits json_result.splits json.splits option.splits)

lemma retrieve_all_self: "fst (retrieve_all E self requested docs) = self"
proof (induction docs arbitrary: requested)
  case Nil
  show ?case by simp
next
  case (Cons d docs)
  obtain outcome self' requested'
    where r: "retrieve E self requested d = (outcome, self', requested')"
    by (cases "retrieve E self requested d")
  with retrieve_self[of E self requested d] have "self' = self"
    by simp
  with r Cons.IH show ?case
    by simp
qed

text \<open>
  C10. Constructing a session from a non-empty endpoint string succeeds; the endpoint it
  stores ends with \<open>/\<close>, is the argument itself when that ends with \<open>/\<close> and the argument
  with \<open>/\<close> appended otherwise, and is still the same after any sequence of \<open>retrieve\<close>
  calls. Constructing a session from the empty string raises \<open>IndexError\<close>.
\<close>

theorem session_endpoint_invariant:
  "(endpoint_arg \<noteq> [] \<longrightarrow>
      (\<exists>self. FulltextSession_init endpoint_arg = Inr self
         \<and> last (endpoint self) = CHR ''/''
         \<and> endpoint self
             = (if last endpoint_arg = CHR ''/'' then endpoint_arg else endpoint_arg @ ''/'')
         \<and> endpoint (fst (retrieve_all E self requested docs)) = endpoint self))
   \<and> FulltextSession_init [] = Inl IndexError"
  by (cases endpoint_arg) (simp_all add: FulltextSession_init_def retrieve_all_self)

theorem session_endpoint_invariant_witness:
  "FulltextSession_init ''http://x/ft'' =
      Inr \<lparr>max_retries = 2, mount_prefix = ''https://'', endpoint = ''http://x/ft/''\<rparr>
   \<and> endpoint (fst (retrieve_all array_env
        \<lparr>max_retries = 2, mount_prefix = ''https://'', endpoint = ''http://x/ft/''\<rparr>
        [] [''a'', ''''])) = ''http://x/ft/''"
  using session_endpoint_invariant[of "''http://x/ft''" array_env "[]" "[''a'', '''']"]
  by (simp add: FulltextSession_init_def)

end
